theory Spec2Isabelle
  imports Main "HOL-Library.AList" "HOL-Library.Word"
begin

section \<open>Shared data types\<close>

text \<open>
  Bytes are 8-bit words. Instants of \<open>time.Time\<close> are integers on one clock (the
  zero value of \<open>time.Time\<close> is the instant 0); \<open>Before\<close> is \<open><\<close>. Go's \<open>int\<close> and
  \<open>int64\<close> values are modelled as unbounded integers: identifiers, comment counts and
  byte lengths of in-memory slices stay far below \<open>2^63\<close>, and no claim depends on
  wrap-around.
\<close>

type_synonym byte = "8 word"
type_synonym time = int

definition zeroTime :: time where
  "zeroTime = 0"

section \<open>The image cache\<close>

text \<open>
  \<open>imageCache.data\<close> is a Go map from string to \<open>*cacheEntry\<close>. It is modelled as an
  association list with distinct keys; the order of the list stands for the order in
  which a \<open>range\<close> over the map visits the entries, which Go leaves unspecified.
  The mutex is not modelled: every operation runs alone.
\<close>

record cacheEntry =
  entry_data :: "byte list"
  lastUse :: time

record imageCache =
  data :: "(string \<times> cacheEntry) list"
  maxSize :: int
  curSize :: int

text \<open>
  The inner \<open>for k, v := range imageCache.data\<close> of \<open>addToCache\<close>: the pair is
  \<open>(oldestKey, oldestTime)\<close>, started at \<open>("", time.Time{})\<close>.
\<close>

fun scanOldest :: "(string \<times> cacheEntry) list \<Rightarrow> string \<times> time \<Rightarrow> string \<times> time" where
  "scanOldest [] acc = acc"
| "scanOldest ((k, v) # kvs) (oldestKey, oldestTime) =
     scanOldest kvs
       (if oldestKey = [] \<or> lastUse v < oldestTime then (k, lastUse v)
        else (oldestKey, oldestTime))"

definition findOldest :: "imageCache \<Rightarrow> string" where
  "findOldest c = fst (scanOldest (data c) ([], zeroTime))"

text \<open>
  The deleting branch of the loop body, taken once \<open>oldestKey \<noteq> ""\<close> is known. Reading
  \<open>imageCache.data[oldestKey].data\<close> for a key that is not in the map would dereference
  nil; \<open>findOldest_in_keys\<close> below shows that the loop never asks for such a key, so the
  \<open>None\<close> branch is never taken.
\<close>

definition evictKey :: "string \<Rightarrow> imageCache \<Rightarrow> imageCache" where
  "evictKey oldestKey c =
     (case map_of (data c) oldestKey of
        None \<Rightarrow> c
      | Some e \<Rightarrow> c\<lparr> curSize := curSize c - int (length (entry_data e)),
                    data := AList.delete oldestKey (data c) \<rparr>)"

lemma scanOldest_key:
  "fst (scanOldest kvs acc) = fst acc \<or> fst (scanOldest kvs acc) \<in> fst ` set kvs"
proof (induction kvs arbitrary: acc)
  case Nil
  show ?case by simp
next
  case (Cons kv kvs)
  obtain k v where kv: "kv = (k, v)" by (cases kv)
  obtain ok ot where acc: "acc = (ok, ot)" by (cases acc)
  show ?case
    using Cons.IH [of "(k, lastUse v)"] Cons.IH [of "(ok, ot)"]
    by (auto simp: kv acc)
qed

lemma findOldest_in_keys:
  "findOldest c \<noteq> [] \<Longrightarrow> findOldest c \<in> fst ` set (data c)"
  using scanOldest_key [of "data c" "([], zeroTime)"]
  by (auto simp: findOldest_def)

lemma length_delete_less:
  "k \<in> fst ` set al \<Longrightarrow> length (AList.delete k al) < length al"
  by (auto simp: AList.delete_eq intro: length_filter_less)

lemma evictKey_shrinks:
  "k \<in> fst ` set (data c) \<Longrightarrow> length (data (evictKey k c)) < length (data c)"
proof -
  assume k: "k \<in> fst ` set (data c)"
  then obtain e where "map_of (data c) k = Some e"
    by (metis domD dom_map_of_conv_image_fst)
  then show ?thesis
    using k by (simp add: evictKey_def length_delete_less)
qed

text \<open>
  The loop \<open>for imageCache.curSize+newSize > imageCache.maxSize\<close>. The second
  component is a log of the passes through the loop body, first pass first: a pass either
  deletes a key or breaks. The source keeps no such log; it is there to speak about the
  iterations.
\<close>

datatype pass = Deleted string | Broke

function evictLoop :: "imageCache \<Rightarrow> int \<Rightarrow> imageCache \<times> pass list" where
  "evictLoop c newSize =
     (if curSize c + newSize > maxSize c then
        (let oldestKey = findOldest c in
         if oldestKey \<noteq> [] then
           (let (c', ps) = evictLoop (evictKey oldestKey c) newSize
            in (c', Deleted oldestKey # ps))
         else (c, [Broke]))
      else (c, []))"
  by pat_completeness auto
termination
  by (relation "measure (\<lambda>(c, newSize). length (data c))")
     (auto dest!: findOldest_in_keys intro: evictKey_shrinks)

declare evictLoop.simps [simp del]

definition addToCache :: "time \<Rightarrow> string \<Rightarrow> byte list \<Rightarrow> imageCache \<Rightarrow> imageCache" where
  "addToCache now key d c =
     (let newSize = int (length d);
          c1 = fst (evictLoop c newSize)
      in c1\<lparr> data := AList.update key \<lparr> entry_data = d, lastUse = now \<rparr> (data c1),
              curSize := curSize c1 + newSize \<rparr>)"

definition getFromCache ::
  "time \<Rightarrow> string \<Rightarrow> imageCache \<Rightarrow> (byte list \<times> bool) \<times> imageCache" where
  "getFromCache now key c =
     (case map_of (data c) key of
        None \<Rightarrow> (([], False), c)
      | Some entry \<Rightarrow>
          ((entry_data entry, True),
           c\<lparr> data := AList.update key (entry\<lparr> lastUse := now \<rparr>) (data c) \<rparr>))"

definition clearImageCache :: "imageCache \<Rightarrow> imageCache" where
  "clearImageCache c = c\<lparr> data := [], curSize := 0 \<rparr>"

text \<open>The keys deleted by a run of the loop, in the order of deletion.\<close>

fun deletedKeys :: "pass list \<Rightarrow> string list" where
  "deletedKeys [] = []"
| "deletedKeys (Deleted k # ps) = k # deletedKeys ps"
| "deletedKeys (Broke # ps) = deletedKeys ps"

text \<open>The sum of the stored payload lengths, which \<open>curSize\<close> is meant to track.\<close>

definition payloadSum :: "imageCache \<Rightarrow> int" where
  "payloadSum c = sum_list (map (\<lambda>(k, e). int (length (entry_data e))) (data c))"

text \<open>The initial value of the package variable \<open>imageCache\<close>.\<close>

definition imageCache_init :: imageCache where
  "imageCache_init = \<lparr> data = [], maxSize = 100 * 1024 * 1024, curSize = 0 \<rparr>"

text \<open>
  Sequences of calls. \<open>time.Now()\<close> is an input of the call: the instant read by
  \<open>addToCache\<close> and by a hit of \<open>getFromCache\<close>.
\<close>

datatype cacheOp =
    AddToCache time string "byte list"
  | GetFromCache time string
  | ClearImageCache

fun runOp :: "imageCache \<Rightarrow> cacheOp \<Rightarrow> imageCache" where
  "runOp c (AddToCache now key d) = addToCache now key d c"
| "runOp c (GetFromCache now key) = snd (getFromCache now key c)"
| "runOp c ClearImageCache = clearImageCache c"

definition runOps :: "cacheOp list \<Rightarrow> imageCache \<Rightarrow> imageCache" where
  "runOps ops c = foldl runOp c ops"

text \<open>
  The cache of the specification's scenario: budget 100, an older entry and a newer
  entry of 40 bytes each.
\<close>

definition cacheAB :: imageCache where
  "cacheAB = \<lparr> data = [(''1.jpg'', \<lparr> entry_data = replicate 40 0, lastUse = 1 \<rparr>),
                      (''2.png'', \<lparr> entry_data = replicate 40 0, lastUse = 2 \<rparr>)],
               maxSize = 100, curSize = 80 \<rparr>"

text \<open>A cache that holds one entry only.\<close>

definition cacheA :: imageCache where
  "cacheA = \<lparr> data = [(''1.jpg'', \<lparr> entry_data = replicate 40 0, lastUse = 1 \<rparr>)],
              maxSize = 100, curSize = 40 \<rparr>"

subsection \<open>The eviction loop\<close>

lemma evictLoop_stop:
  "\<not> curSize c + n > maxSize c \<Longrightarrow> evictLoop c n = (c, [])"
  by (subst evictLoop.simps) simp

lemma evictLoop_break:
  "curSize c + n > maxSize c \<Longrightarrow> findOldest c = [] \<Longrightarrow> evictLoop c n = (c, [Broke])"
  by (subst evictLoop.simps) simp

lemma evictLoop_step:
  "curSize c + n > maxSize c \<Longrightarrow> findOldest c \<noteq> [] \<Longrightarrow>
   evictLoop c n = (fst (evictLoop (evictKey (findOldest c) c) n),
                    Deleted (findOldest c) # snd (evictLoop (evictKey (findOldest c) c) n))"
  by (subst evictLoop.simps) (simp add: Let_def split: prod.splits)

lemma evictKey_data: "k \<in> fst ` set (data c) \<Longrightarrow> data (evictKey k c) = AList.delete k (data c)"
proof -
  assume k: "k \<in> fst ` set (data c)"
  then obtain e where "map_of (data c) k = Some e"
    by (metis domD dom_map_of_conv_image_fst)
  then show ?thesis by (simp add: evictKey_def)
qed

lemma evictKey_maxSize [simp]: "maxSize (evictKey k c) = maxSize c"
  by (simp add: evictKey_def split: option.splits)

lemma scanOldest_nonempty:
  "[] \<notin> fst ` set kvs \<Longrightarrow> fst acc \<noteq> [] \<or> kvs \<noteq> [] \<Longrightarrow> fst (scanOldest kvs acc) \<noteq> []"
proof (induction kvs arbitrary: acc)
  case Nil
  then show ?case by simp
next
  case (Cons kv kvs)
  obtain k v where kv: "kv = (k, v)" by (cases kv)
  obtain ok ot where acc: "acc = (ok, ot)" by (cases acc)
  have k: "k \<noteq> []" using Cons.prems(1) by (auto simp: kv)
  have rest: "[] \<notin> fst ` set kvs" using Cons.prems(1) by auto
  show ?case
    using Cons.IH [OF rest, of "(k, lastUse v)"] Cons.IH [OF rest, of "(ok, ot)"] k
    by (auto simp: kv acc)
qed

lemma findOldest_empty_iff:
  "[] \<notin> fst ` set (data c) \<Longrightarrow> findOldest c = [] \<longleftrightarrow> data c = []"
  using scanOldest_nonempty [of "data c" "([], zeroTime)"]
  by (auto simp: findOldest_def)

lemma length_delete_distinct:
  "distinct (map fst al) \<Longrightarrow> k \<in> fst ` set al \<Longrightarrow> Suc (length (AList.delete k al)) = length al"
proof (induction al)
  case Nil
  then show ?case by simp
next
  case (Cons p al)
  show ?case
  proof (cases "fst p = k")
    case True
    then have "k \<notin> fst ` set al" using Cons.prems(1) by auto
    then show ?thesis using True by simp
  next
    case False
    then show ?thesis using Cons by auto
  qed
qed

lemma evictKey_distinct:
  "distinct (map fst (data c)) \<Longrightarrow> distinct (map fst (data (evictKey k c)))"
  by (simp add: evictKey_def AList.distinct_delete split: option.splits)

lemma evictKey_keys_subset:
  "fst ` set (data (evictKey k c)) \<subseteq> fst ` set (data c)"
  using AList.dom_delete_subset [of k "data c"]
  by (auto simp: evictKey_def split: option.splits)

lemma evictLoop_deleted_count:
  "distinct (map fst (data c)) \<Longrightarrow>
   length (deletedKeys (snd (evictLoop c n))) + length (data (fst (evictLoop c n))) = length (data c)"
proof (induction c n rule: evictLoop.induct)
  case (1 c newSize)
  show ?case
  proof (cases "curSize c + newSize > maxSize c")
    case over: True
    show ?thesis
    proof (cases "findOldest c = []")
      case True
      then show ?thesis using over by (simp add: evictLoop_break)
    next
      case False
      have k: "findOldest c \<in> fst ` set (data c)"
        using False by (simp add: findOldest_in_keys)
      have "Suc (length (data (evictKey (findOldest c) c))) = length (data c)"
        using k "1.prems" by (simp add: evictKey_data length_delete_distinct)
      then show ?thesis
        using "1.IH" [OF over refl False evictKey_distinct [OF "1.prems"]] over False
        by (simp add: evictLoop_step)
    qed
  next
    case False
    then show ?thesis by (simp add: evictLoop_stop)
  qed
qed

lemma evictLoop_broke_last:
  "Broke \<notin> set (butlast (snd (evictLoop c n)))"
proof (induction c n rule: evictLoop.induct)
  case (1 c newSize)
  show ?case
  proof (cases "curSize c + newSize > maxSize c")
    case over: True
    show ?thesis
    proof (cases "findOldest c = []")
      case True
      then show ?thesis using over by (simp add: evictLoop_break)
    next
      case False
      then show ?thesis
        using "1.IH" [OF over refl False] over
        by (simp add: evictLoop_step)
    qed
  next
    case False
    then show ?thesis by (simp add: evictLoop_stop)
  qed
qed

lemma evictLoop_broke_empty:
  "[] \<notin> fst ` set (data c) \<Longrightarrow> Broke \<in> set (snd (evictLoop c n)) \<Longrightarrow>
   data (fst (evictLoop c n)) = []"
proof (induction c n rule: evictLoop.induct)
  case (1 c newSize)
  show ?case
  proof (cases "curSize c + newSize > maxSize c")
    case over: True
    show ?thesis
    proof (cases "findOldest c = []")
      case True
      then show ?thesis using over "1.prems"(1) by (simp add: evictLoop_break findOldest_empty_iff)
    next
      case False
      have "[] \<notin> fst ` set (data (evictKey (findOldest c) c))"
        using "1.prems"(1) evictKey_keys_subset [of "findOldest c" c] by blast
      then show ?thesis
        using "1.IH" [OF over refl False] over False "1.prems"(2)
        by (simp add: evictLoop_step)
    qed
  next
    case False
    then show ?thesis using "1.prems"(2) by (simp add: evictLoop_stop)
  qed
qed


lemma evictLoop_passes_le:
  "length (snd (evictLoop c n)) + length (data (fst (evictLoop c n))) \<le> length (data c) + 1"
proof (induction c n rule: evictLoop.induct)
  case (1 c newSize)
  show ?case
  proof (cases "curSize c + newSize > maxSize c")
    case over: True
    show ?thesis
    proof (cases "findOldest c = []")
      case True
      then show ?thesis using over by (simp add: evictLoop_break)
    next
      case False
      have "length (data (evictKey (findOldest c) c)) < length (data c)"
        using False by (simp add: findOldest_in_keys evictKey_shrinks)
      then show ?thesis
        using "1.IH" [OF over refl False] over False by (simp add: evictLoop_step)
    qed
  next
    case False
    then show ?thesis by (simp add: evictLoop_stop)
  qed
qed

lemma evictLoop_cacheAB:
  "evictLoop cacheAB 200 = (\<lparr> data = [], maxSize = 100, curSize = 0 \<rparr>,
     [Deleted ''1.jpg'', Deleted ''2.png'', Broke])"
  by (simp add: evictLoop.simps [of cacheAB] evictLoop.simps [of "evictKey k c" for k c]
     evictLoop.simps [of "\<lparr> data = d, maxSize = m, curSize = s\<rparr>" for d m s]
     cacheAB_def findOldest_def evictKey_def zeroTime_def)

text \<open>
  C10 (as amended). For every cache state and every payload size the eviction loop of
  \<open>addToCache\<close> terminates (\<open>evictLoop\<close> is a total function, by the termination proof
  above) after at most one pass more than there are entries: only the last pass can be
  the breaking one, every other pass deletes exactly one entry of the map, and when no
  key is the empty string the loop breaks only once no entry remains.
\<close>

theorem evictLoop_terminates:
  "length (snd (evictLoop c n)) \<le> length (data c) + 1
   \<and> Broke \<notin> set (butlast (snd (evictLoop c n)))
   \<and> (distinct (map fst (data c)) \<longrightarrow>
        length (deletedKeys (snd (evictLoop c n))) + length (data (fst (evictLoop c n)))
          = length (data c))
   \<and> ([] \<notin> fst ` set (data c) \<longrightarrow> Broke \<in> set (snd (evictLoop c n)) \<longrightarrow>
        data (fst (evictLoop c n)) = [])"
proof -
  have "length (snd (evictLoop c n)) \<le> length (data c) + 1"
    using evictLoop_passes_le [of c n] by simp
  then show ?thesis
    using evictLoop_broke_last [of c n] evictLoop_deleted_count [of c n]
      evictLoop_broke_empty [of c n]
    by blast
qed

text \<open>
  Witness: emptying the two-entry cache for a payload of 200 bytes takes three passes,
  two deletions and the break.
\<close>

theorem evictLoop_terminates_witness:
  "distinct (map fst (data cacheAB)) \<and> [] \<notin> fst ` set (data cacheAB)
   \<and> Broke \<in> set (snd (evictLoop cacheAB 200))
   \<and> length (snd (evictLoop cacheAB 200)) \<le> length (data cacheAB) + 1
   \<and> length (deletedKeys (snd (evictLoop cacheAB 200)))
        + length (data (fst (evictLoop cacheAB 200))) = length (data cacheAB)
   \<and> data (fst (evictLoop cacheAB 200)) = []"
proof -
  have d: "distinct (map fst (data cacheAB))" by (simp add: cacheAB_def)
  have k: "[] \<notin> fst ` set (data cacheAB)" by (simp add: cacheAB_def)
  have b: "Broke \<in> set (snd (evictLoop cacheAB 200))" by (simp add: evictLoop_cacheAB)
  show ?thesis
    using evictLoop_terminates [of cacheAB 200] d k b by blast
qed

text \<open>
  The bound of the claim as stated, one iteration per entry, fails on the empty cache:
  with a budget of 0 and a payload of one byte the loop is entered, finds no key and
  breaks, which is one pass over a map of no entries.
\<close>

theorem evictLoop_passes_counterexample:
  "\<not> length (snd (evictLoop \<lparr> data = [], maxSize = 0, curSize = 0 \<rparr> 1))
       \<le> length (data \<lparr> data = [], maxSize = 0, curSize = 0 \<rparr>)"
  by (simp add: evictLoop_break findOldest_def)

subsection \<open>Which entry the loop deletes\<close>

lemma scanOldest_min:
  assumes "[] \<notin> fst ` set kvs" and "fst acc \<noteq> []"
  shows "snd (scanOldest kvs acc) \<le> snd acc
     \<and> (\<forall>(k, e) \<in> set kvs. snd (scanOldest kvs acc) \<le> lastUse e)
     \<and> (scanOldest kvs acc = acc
         \<or> (\<exists>e. (fst (scanOldest kvs acc), e) \<in> set kvs \<and> snd (scanOldest kvs acc) = lastUse e))"
  using assms
proof (induction kvs arbitrary: acc)
  case Nil
  then show ?case by simp
next
  case (Cons kv kvs)
  obtain k v where kv: "kv = (k, v)" by (cases kv)
  obtain ok ot where acc: "acc = (ok, ot)" by (cases acc)
  have k: "k \<noteq> []" and rest: "[] \<notin> fst ` set kvs" using Cons.prems(1) by (auto simp: kv)
  have ok: "ok \<noteq> []" using Cons.prems(2) by (simp add: acc)
  show ?case
  proof (cases "lastUse v < ot")
    case True
    then have step: "scanOldest (kv # kvs) acc = scanOldest kvs (k, lastUse v)"
      by (simp add: kv acc)
    show ?thesis
      using Cons.IH [OF rest, of "(k, lastUse v)"] k True
      unfolding step by (auto simp: kv acc)
  next
    case False
    then have step: "scanOldest (kv # kvs) acc = scanOldest kvs (ok, ot)"
      using ok by (simp add: kv acc)
    show ?thesis
      using Cons.IH [OF rest, of "(ok, ot)"] ok False
      unfolding step by (auto simp: kv acc)
  qed
qed

lemma findOldest_min:
  assumes "[] \<notin> fst ` set (data c)" and "data c \<noteq> []"
  shows "\<exists>e. (findOldest c, e) \<in> set (data c)
            \<and> (\<forall>(k', e') \<in> set (data c). lastUse e \<le> lastUse e')"
proof -
  obtain k v kvs where d: "data c = (k, v) # kvs"
    using assms(2) by (cases "data c") auto
  have k: "k \<noteq> []" and rest: "[] \<notin> fst ` set kvs" using assms(1) by (auto simp: d)
  have fo: "findOldest c = fst (scanOldest kvs (k, lastUse v))"
    by (simp add: findOldest_def d)
  show ?thesis
    using scanOldest_min [OF rest, of "(k, lastUse v)"] k
    unfolding fo d by (cases "scanOldest kvs (k, lastUse v)") force
qed


lemma findOldest_is_oldest:
  assumes "[] \<notin> fst ` set (data c)"
      and "distinct (map (lastUse \<circ> snd) (data c))"
      and "(k, e) \<in> set (data c)"
      and "\<forall>(k', e') \<in> set (data c). lastUse e \<le> lastUse e'"
  shows "findOldest c = k"
proof -
  have ne: "data c \<noteq> []" using assms(3) by auto
  obtain e0 where e0: "(findOldest c, e0) \<in> set (data c)"
      and min0: "\<forall>(k', e') \<in> set (data c). lastUse e0 \<le> lastUse e'"
    using findOldest_min [OF assms(1) ne] by blast
  have "lastUse e0 = lastUse e"
    using min0 assms(3,4) e0 by fastforce
  moreover have "inj_on (lastUse \<circ> snd) (set (data c))"
    using assms(2) by (simp add: distinct_map)
  ultimately have "(findOldest c, e0) = (k, e)"
    using e0 assms(3) inj_onD [of "lastUse \<circ> snd" "set (data c)" "(findOldest c, e0)" "(k, e)"]
    by simp
  then show ?thesis by simp
qed

lemma evictLoop_keys_subset:
  "fst ` set (data (fst (evictLoop c n))) \<subseteq> fst ` set (data c)"
proof (induction c n rule: evictLoop.induct)
  case (1 c newSize)
  show ?case
  proof (cases "curSize c + newSize > maxSize c")
    case over: True
    show ?thesis
    proof (cases "findOldest c = []")
      case True
      then show ?thesis using over by (simp add: evictLoop_break)
    next
      case False
      show ?thesis
        using "1.IH" [OF over refl False] evictKey_keys_subset [of "findOldest c" c] over False
        by (simp add: evictLoop_step)
    qed
  next
    case False
    then show ?thesis by (simp add: evictLoop_stop)
  qed
qed

lemma evictLoop_first_deleted_gone:
  assumes "curSize c + n > maxSize c" and "findOldest c \<noteq> []"
  shows "findOldest c \<notin> fst ` set (data (fst (evictLoop c n)))"
proof -
  have k: "findOldest c \<in> fst ` set (data c)"
    using assms(2) by (rule findOldest_in_keys)
  have "findOldest c \<notin> fst ` set (data (evictKey (findOldest c) c))"
    using AList.delete_notin_dom [of "findOldest c" "data c"] by (simp add: evictKey_data [OF k])
  then show ?thesis
    using evictLoop_keys_subset [of "evictKey (findOldest c) c" n] assms
    by (auto simp: evictLoop_step)
qed

lemma addToCache_lookup_other:
  "key \<noteq> k \<Longrightarrow>
   map_of (data (addToCache now key d c)) k = map_of (data (fst (evictLoop c (int (length d))))) k"
  by (simp add: addToCache_def Let_def AList.update_conv')

lemma set_update_distinct:
  "distinct (map fst al) \<Longrightarrow>
   set (AList.update k v al) = insert (k, v) {p \<in> set al. fst p \<noteq> k}"
  by (induction al) (auto simp: rev_image_eqI)

lemma getFromCache_hit_data:
  assumes "snd (fst (getFromCache t kh c))"
  shows "\<exists>eh. map_of (data c) kh = Some eh
           \<and> snd (getFromCache t kh c)
               = c\<lparr> data := AList.update kh (eh\<lparr> lastUse := t \<rparr>) (data c) \<rparr>"
  using assms by (auto simp: getFromCache_def split: option.splits)


lemma set_update_subset: "set (AList.update k v al) \<subseteq> insert (k, v) (set al)"
  by (induction al) auto

lemma distinct_map_update:
  "distinct (map g al) \<Longrightarrow> g (k, v) \<notin> g ` set al \<Longrightarrow>
   distinct (map g (AList.update k v al))"
proof (induction al)
  case Nil
  then show ?case by simp
next
  case (Cons p al)
  show ?case
  proof (cases "fst p = k")
    case True
    then show ?thesis using Cons.prems by auto
  next
    case False
    have "g p \<notin> g ` set (AList.update k v al)"
      using Cons.prems set_update_subset [of k v al] by auto
    then show ?thesis using False Cons by auto
  qed
qed

lemmas evictLoop_unfold =
  evictLoop.simps [of "\<lparr> data = dt, maxSize = m, curSize = s\<rparr>" for dt m s]

text \<open>The scenario of the specification, computed.\<close>

lemma addToCache_scenario:
  "addToCache 3 ''3.gif'' (replicate 40 0) cacheAB
   = \<lparr> data = [(''2.png'', \<lparr> entry_data = replicate 40 0, lastUse = 2 \<rparr>),
               (''3.gif'', \<lparr> entry_data = replicate 40 0, lastUse = 3 \<rparr>)],
       maxSize = 100, curSize = 80 \<rparr>"
  by (simp add: cacheAB_def addToCache_def evictLoop_unfold findOldest_def
      evictKey_def zeroTime_def)

text \<open>
  C5 (as amended). Take a cache state whose keys are non-empty (as every key built by
  \<open>getImage\<close> is) and whose last-access instants are pairwise distinct, and a payload that
  forces eviction. Then the first pass of the loop deletes the entry with the oldest
  instant, and that key is absent after \<open>addToCache\<close> unless it is the key being added.
  After a hit of \<open>getFromCache\<close> on \<open>kh\<close> at an instant later than every stored one, and
  provided the cache holds another entry, the first pass deletes the oldest of the other
  entries, not \<open>kh\<close>.
\<close>

theorem lru_eviction_order:
  assumes "distinct (map fst (data c))" and "[] \<notin> fst ` set (data c)"
      and "distinct (map (lastUse \<circ> snd) (data c))"
      and "maxSize c < curSize c + int (length d)"
  shows "((k, e) \<in> set (data c) \<and> (\<forall>(k', e') \<in> set (data c). lastUse e \<le> lastUse e') \<longrightarrow>
            (\<exists>ps. snd (evictLoop c (int (length d))) = Deleted k # ps)
            \<and> (key \<noteq> k \<longrightarrow> map_of (data (addToCache now key d c)) k = None))
       \<and> (snd (fst (getFromCache t kh c)) \<and> (\<forall>(k', e') \<in> set (data c). lastUse e' < t)
            \<and> (k2, e2) \<in> set (data c) \<and> k2 \<noteq> kh
            \<and> (\<forall>(k', e') \<in> set (data c). k' \<noteq> kh \<longrightarrow> lastUse e2 \<le> lastUse e') \<longrightarrow>
            (\<exists>ps. snd (evictLoop (snd (getFromCache t kh c)) (int (length d)))
                    = Deleted k2 # ps))"
proof (intro conjI impI)
  assume old: "(k, e) \<in> set (data c) \<and> (\<forall>(k', e') \<in> set (data c). lastUse e \<le> lastUse e')"
  then have fo: "findOldest c = k"
    using findOldest_is_oldest [OF assms(2,3), of k e] by blast
  have kne: "k \<noteq> []" using old assms(2) by force
  show "\<exists>ps. snd (evictLoop c (int (length d))) = Deleted k # ps"
    using evictLoop_step [of c "int (length d)"] assms(4) fo kne by simp
  have "k \<notin> fst ` set (data (fst (evictLoop c (int (length d)))))"
    using evictLoop_first_deleted_gone [of c "int (length d)"] assms(4) fo kne by simp
  then have "map_of (data (fst (evictLoop c (int (length d))))) k = None"
    by (simp add: map_of_eq_None_iff)
  then show "key \<noteq> k \<Longrightarrow> map_of (data (addToCache now key d c)) k = None"
    by (simp add: addToCache_lookup_other)
next
  assume hit: "snd (fst (getFromCache t kh c)) \<and> (\<forall>(k', e') \<in> set (data c). lastUse e' < t)
            \<and> (k2, e2) \<in> set (data c) \<and> k2 \<noteq> kh
            \<and> (\<forall>(k', e') \<in> set (data c). k' \<noteq> kh \<longrightarrow> lastUse e2 \<le> lastUse e')"
  define c1 where "c1 = snd (getFromCache t kh c)"
  obtain eh where eh: "map_of (data c) kh = Some eh"
      and c1: "c1 = c\<lparr> data := AList.update kh (eh\<lparr> lastUse := t \<rparr>) (data c) \<rparr>"
    using getFromCache_hit_data [of t kh c] hit unfolding c1_def by blast
  have khin: "kh \<in> fst ` set (data c)"
    using eh by (metis domI dom_map_of_conv_image_fst)
  have set1: "set (data c1) = insert (kh, eh\<lparr> lastUse := t \<rparr>) {p \<in> set (data c). fst p \<noteq> kh}"
    using assms(1) by (simp add: c1 set_update_distinct)
  have keys1: "[] \<notin> fst ` set (data c1)"
    using assms(2) khin by (auto simp: c1 AList.dom_update)
  have later: "lastUse e' < t" if "(k', e') \<in> set (data c)" for k' e'
    using hit that by blast
  have others: "lastUse e2 \<le> lastUse e'" if "(k', e') \<in> set (data c)" "k' \<noteq> kh" for k' e'
    using hit that by blast
  have "(lastUse \<circ> snd) (kh, eh\<lparr> lastUse := t \<rparr>) \<notin> (lastUse \<circ> snd) ` set (data c)"
  proof
    assume "(lastUse \<circ> snd) (kh, eh\<lparr> lastUse := t \<rparr>) \<in> (lastUse \<circ> snd) ` set (data c)"
    then obtain k' e' where "(k', e') \<in> set (data c)" "lastUse e' = t"
      by force
    then show False using later [of k' e'] by simp
  qed
  then have times1: "distinct (map (lastUse \<circ> snd) (data c1))"
    using assms(3) by (simp add: c1 distinct_map_update)
  have in1: "(k2, e2) \<in> set (data c1)"
    using hit by (simp add: set1)
  have e2t: "lastUse e2 < t" using later [of k2 e2] hit by blast
  have min1: "\<forall>(k', e') \<in> set (data c1). lastUse e2 \<le> lastUse e'"
  proof (clarify)
    fix k' e' assume "(k', e') \<in> set (data c1)"
    then consider "(k', e') = (kh, eh\<lparr> lastUse := t \<rparr>)" | "(k', e') \<in> set (data c)" "k' \<noteq> kh"
      unfolding set1 by auto
    then show "lastUse e2 \<le> lastUse e'"
    proof cases
      case 1
      then show ?thesis using e2t by simp
    next
      case 2
      then show ?thesis by (rule others)
    qed
  qed
  have fo: "findOldest c1 = k2"
    using findOldest_is_oldest [OF keys1 times1 in1 min1] .
  have k2ne: "k2 \<noteq> []" using hit assms(2) by force
  have over1: "maxSize c1 < curSize c1 + int (length d)"
    using assms(4) by (simp add: c1)
  show "\<exists>ps. snd (evictLoop (snd (getFromCache t kh c)) (int (length d))) = Deleted k2 # ps"
    using evictLoop_step [of c1 "int (length d)"] over1 fo k2ne
    unfolding c1_def by simp
qed


text \<open>
  Witness, on the scenario of the specification: adding 40 bytes to the cache of two
  40-byte entries deletes the older entry \<open>1.jpg\<close>; after a hit on \<open>1.jpg\<close> at instant 3 the
  same addition deletes \<open>2.png\<close> instead.
\<close>

theorem lru_eviction_order_witness:
  "distinct (map fst (data cacheAB)) \<and> [] \<notin> fst ` set (data cacheAB)
   \<and> distinct (map (lastUse \<circ> snd) (data cacheAB))
   \<and> maxSize cacheAB < curSize cacheAB + int (length (replicate 40 (0::byte)))
   \<and> (\<exists>ps. snd (evictLoop cacheAB (int (length (replicate 40 (0::byte)))))
              = Deleted ''1.jpg'' # ps)
   \<and> map_of (data (addToCache 3 ''3.gif'' (replicate 40 0) cacheAB)) ''1.jpg'' = None
   \<and> snd (fst (getFromCache 3 ''1.jpg'' cacheAB))
   \<and> (\<exists>ps. snd (evictLoop (snd (getFromCache 3 ''1.jpg'' cacheAB))
                     (int (length (replicate 40 (0::byte))))) = Deleted ''2.png'' # ps)"
proof -
  have h1: "distinct (map fst (data cacheAB))" by (simp add: cacheAB_def)
  have h2: "[] \<notin> fst ` set (data cacheAB)" by (simp add: cacheAB_def)
  have h3: "distinct (map (lastUse \<circ> snd) (data cacheAB))" by (simp add: cacheAB_def)
  have h4: "maxSize cacheAB < curSize cacheAB + int (length (replicate 40 (0::byte)))"
    by (simp add: cacheAB_def)
  have a1: "(''1.jpg'', \<lparr> entry_data = replicate 40 0, lastUse = 1 \<rparr>) \<in> set (data cacheAB)
      \<and> (\<forall>(k', e') \<in> set (data cacheAB).
            lastUse \<lparr> entry_data = replicate 40 (0::byte), lastUse = 1 \<rparr> \<le> lastUse e')"
    by (simp add: cacheAB_def)
  have hit: "snd (fst (getFromCache 3 ''1.jpg'' cacheAB))"
    by (simp add: getFromCache_def cacheAB_def)
  have a2: "snd (fst (getFromCache 3 ''1.jpg'' cacheAB))
      \<and> (\<forall>(k', e') \<in> set (data cacheAB). lastUse e' < 3)
      \<and> (''2.png'', \<lparr> entry_data = replicate 40 0, lastUse = 2 \<rparr>) \<in> set (data cacheAB)
      \<and> ''2.png'' \<noteq> ''1.jpg''
      \<and> (\<forall>(k', e') \<in> set (data cacheAB). k' \<noteq> ''1.jpg'' \<longrightarrow>
            lastUse \<lparr> entry_data = replicate 40 (0::byte), lastUse = 2 \<rparr> \<le> lastUse e')"
    using hit by (simp add: cacheAB_def)
  show ?thesis
    using lru_eviction_order [OF h1 h2 h3 h4,
        where k = "''1.jpg''" and e = "\<lparr> entry_data = replicate 40 0, lastUse = 1 \<rparr>"
          and key = "''3.gif''" and now = 3 and t = 3 and kh = "''1.jpg''"
          and ?k2.0 = "''2.png''" and ?e2.0 = "\<lparr> entry_data = replicate 40 0, lastUse = 2 \<rparr>"]
      h1 h2 h3 h4 a1 a2
    by simp
qed

text \<open>
  The protection of the claim as stated fails when the entry that was hit is the only
  one: the forcing \<open>addToCache\<close> has nothing else to delete.
\<close>

theorem lru_single_entry_counterexample:
  "snd (fst (getFromCache 2 ''1.jpg'' cacheA))
   \<and> maxSize (snd (getFromCache 2 ''1.jpg'' cacheA))
       < curSize (snd (getFromCache 2 ''1.jpg'' cacheA)) + int (length (replicate 80 (0::byte)))
   \<and> snd (evictLoop (snd (getFromCache 2 ''1.jpg'' cacheA)) (int (length (replicate 80 (0::byte)))))
       = [Deleted ''1.jpg'']
   \<and> map_of (data (addToCache 3 ''2.png'' (replicate 80 0) (snd (getFromCache 2 ''1.jpg'' cacheA))))
        ''1.jpg'' = None"
  by (simp add: getFromCache_def cacheA_def addToCache_def evictLoop_unfold findOldest_def
      evictKey_def zeroTime_def)

text \<open>
  The scan relies on \<open>""\<close> meaning that nothing was found yet. Were the empty string a key,
  the entry visited after it would replace it whatever its instant, and an empty key
  chosen last would end the loop; hence the hypothesis on keys above.
\<close>

lemma findOldest_empty_key_example:
  "findOldest \<lparr> data = [([], \<lparr> entry_data = [0], lastUse = 1 \<rparr>),
                         (''1.jpg'', \<lparr> entry_data = [0], lastUse = 5 \<rparr>)],
                 maxSize = 1, curSize = 2 \<rparr> = ''1.jpg''
   \<and> findOldest \<lparr> data = [(''1.jpg'', \<lparr> entry_data = [0], lastUse = 5 \<rparr>),
                           ([], \<lparr> entry_data = [0], lastUse = 1 \<rparr>)],
                   maxSize = 1, curSize = 2 \<rparr> = []"
  by (simp add: findOldest_def zeroTime_def)

subsection \<open>The size counter\<close>

text \<open>
  C4 at a failing input. \<open>addToCache\<close> adds the new length to \<open>curSize\<close> without
  subtracting the length of an entry it overwrites: after two additions under the same
  key the counter is 2 while the map holds one byte.
\<close>

theorem addToCache_overwrite_drift:
  "curSize (runOps [AddToCache 1 ''1.jpg'' [0], AddToCache 2 ''1.jpg'' [0]] imageCache_init) = 2
   \<and> payloadSum (runOps [AddToCache 1 ''1.jpg'' [0], AddToCache 2 ''1.jpg'' [0]] imageCache_init) = 1
   \<and> data (runOps [AddToCache 1 ''1.jpg'' [0], AddToCache 2 ''1.jpg'' [0]] imageCache_init)
       = [(''1.jpg'', \<lparr> entry_data = [0], lastUse = 2 \<rparr>)]"
  by (simp add: runOps_def imageCache_init_def addToCache_def evictLoop_unfold payloadSum_def)

section \<open>Rows and the storage\<close>

text \<open>
  The structs \<open>User\<close>, \<open>Comment\<close> and \<open>Post\<close> of the source, and the store behind
  \<open>db\<close>: three tables of rows, whose \<open>id\<close> columns are primary keys, the counter of the
  auto-increment column of \<open>posts\<close>, and whether the store answers at all (\<open>alive\<close>; when
  it does not, every query returns an error). \<open>rowsDelivered = Some n\<close> stands for a
  connection that breaks while a result set is read: \<open>rows.Next()\<close> turns false after \<open>n\<close>
  rows and only \<open>rows.Err()\<close> would tell; \<open>None\<close> means that every result set is read to
  its end. The table definitions are not part of the source; the columns are those the
  queries and \<open>db\<close> tags name.
\<close>

datatype error =
    StorageError
  | NoRows
  | ScanError
  | DecodeError
  | EncodeError
  | UnsupportedImageType string
  | ReadError
  | EmptySlice
  | BindVarsExceedArguments
  | BindVarsLessThanArguments

record User =
  uID :: int
  uAccountName :: string
  uPasshash :: string
  uAuthority :: int
  uDelFlg :: int
  uCreatedAt :: time

record Comment =
  cID :: int
  cPostID :: int
  cUserID :: int
  cComment :: string
  cCreatedAt :: time
  cUser :: User

record Post =
  pID :: int
  pUserID :: int
  pImgdata :: "byte list"
  pBody :: string
  pMime :: string
  pCreatedAt :: time
  pCommentCount :: int
  pComments :: "Comment list"
  pUser :: User
  pCSRFToken :: string

definition zeroUser :: User where
  "zeroUser = \<lparr> uID = 0, uAccountName = [], uPasshash = [], uAuthority = 0, uDelFlg = 0,
                 uCreatedAt = zeroTime \<rparr>"

record postRow =
  r_id :: int
  r_user_id :: int
  r_imgdata :: "byte list"
  r_body :: string
  r_mime :: string
  r_created_at :: time

record commentRow =
  cr_id :: int
  cr_post_id :: int
  cr_user_id :: int
  cr_comment :: string
  cr_created_at :: time

record database =
  users :: "User list"
  posts :: "postRow list"
  comments :: "commentRow list"
  nextPostID :: int
  alive :: bool
  rowsDelivered :: "nat option"

text \<open>\<open>SELECT *\<close> scanned into a \<open>Post\<close>: the fields without a column keep their zero value.\<close>

definition scanPost :: "postRow \<Rightarrow> Post" where
  "scanPost r = \<lparr> pID = r_id r, pUserID = r_user_id r, pImgdata = r_imgdata r, pBody = r_body r,
                  pMime = r_mime r, pCreatedAt = r_created_at r, pCommentCount = 0,
                  pComments = [], pUser = zeroUser, pCSRFToken = [] \<rparr>"

text \<open>\<open>db.Get(&post, "SELECT * FROM `posts` WHERE `id` = ?", pid)\<close>.\<close>

definition dbGetPost :: "database \<Rightarrow> int \<Rightarrow> error + Post" where
  "dbGetPost db pid =
     (if \<not> alive db then Inl StorageError
      else case find (\<lambda>r. r_id r = pid) (posts db) of
             None \<Rightarrow> Inl NoRows
           | Some r \<Rightarrow> Inr (scanPost r))"

text \<open>
  \<open>INSERT INTO `posts` (`user_id`, `mime`, `imgdata`, `body`)\<close> followed by
  \<open>LastInsertId\<close>; \<open>created_at\<close> takes the clock of the store.
\<close>

definition insertPost ::
  "database \<Rightarrow> time \<Rightarrow> int \<Rightarrow> string \<Rightarrow> byte list \<Rightarrow> string \<Rightarrow> error + (database \<times> int)" where
  "insertPost db now userID mime imgdata body =
     (if \<not> alive db then Inl StorageError
      else Inr (db\<lparr> posts := posts db @
                        [\<lparr> r_id = nextPostID db, r_user_id = userID, r_imgdata = imgdata,
                           r_body = body, r_mime = mime, r_created_at = now \<rparr>],
                    nextPostID := nextPostID db + 1 \<rparr>,
                nextPostID db))"

section \<open>Decimal numbers\<close>

text \<open>
  \<open>strconv.Atoi\<close> (an optional sign, then at least one decimal digit, within the range
  of a 64-bit \<open>int\<close>) and the \<open>%d\<close> of \<open>fmt.Sprintf\<close>, as the standard library defines them.
\<close>

definition digitVal :: "char \<Rightarrow> nat option" where
  "digitVal ch = (if 48 \<le> (of_char ch :: nat) \<and> (of_char ch :: nat) \<le> 57
                  then Some (of_char ch - 48) else None)"

fun parseDigits :: "string \<Rightarrow> nat \<Rightarrow> nat option" where
  "parseDigits [] acc = Some acc"
| "parseDigits (ch # cs) acc =
     (case digitVal ch of None \<Rightarrow> None | Some dg \<Rightarrow> parseDigits cs (10 * acc + dg))"

definition Atoi :: "string \<Rightarrow> int option" where
  "Atoi s =
     (let (neg, ds) = (case s of
                         [] \<Rightarrow> (False, [])
                       | ch # cs \<Rightarrow> if ch = CHR ''-'' then (True, cs)
                                   else if ch = CHR ''+'' then (False, cs)
                                   else (False, s))
      in if ds = [] then None
         else case parseDigits ds 0 of
                None \<Rightarrow> None
              | Some n \<Rightarrow>
                  (let v = (if neg then - int n else int n)
                   in if - (2 ^ 63) \<le> v \<and> v < 2 ^ 63 then Some v else None))"

fun natDigits :: "nat \<Rightarrow> string" where
  "natDigits n = (if n < 10 then [''0123456789'' ! n]
                  else natDigits (n div 10) @ [''0123456789'' ! (n mod 10)])"

declare natDigits.simps [simp del]

definition Itoa :: "int \<Rightarrow> string" where
  "Itoa i = (if i < 0 then CHR ''-'' # natDigits (nat (- i)) else natDigits (nat i))"

lemma natDigits_small: "n < 10 \<Longrightarrow> natDigits n = [''0123456789'' ! n]"
  by (simp add: natDigits.simps)

lemma natDigits_big:
  "\<not> n < 10 \<Longrightarrow> natDigits n = natDigits (n div 10) @ [''0123456789'' ! (n mod 10)]"
  by (subst natDigits.simps) simp

lemmas decimal_eval = Atoi_def digitVal_def Itoa_def natDigits_small natDigits_big

section \<open>Serving an image\<close>

text \<open>
  What a handler wrote: \<open>rStatus = None\<close> means that \<open>WriteHeader\<close> was never called
  (\<open>net/http\<close> then answers 200). The hash behind the ETag is a parameter. \<open>getImage\<close>
  reads the clock once, in \<open>getFromCache\<close> on a hit and in \<open>addToCache\<close> on a miss.
  \<open>extMatchesMime\<close> is the condition of the \<open>if\<close> that guards \<open>addToCache\<close>.
\<close>

record response =
  rStatus :: "nat option"
  rHeaders :: "(string \<times> string) list"
  rBody :: "byte list"

definition silent :: response where
  "silent = \<lparr> rStatus = None, rHeaders = [], rBody = [] \<rparr>"

definition statusOnly :: "nat \<Rightarrow> response" where
  "statusOnly code = \<lparr> rStatus = Some code, rHeaders = [], rBody = [] \<rparr>"

definition redirect :: "string \<Rightarrow> response" where
  "redirect url = \<lparr> rStatus = Some 302, rHeaders = [(''Location'', url)], rBody = [] \<rparr>"

definition getMimeType :: "string \<Rightarrow> string" where
  "getMimeType ext =
     (if ext = ''jpg'' then ''image/jpeg''
      else if ext = ''png'' then ''image/png''
      else if ext = ''gif'' then ''image/gif''
      else [])"

definition extMatchesMime :: "string \<Rightarrow> string \<Rightarrow> bool" where
  "extMatchesMime ext mime \<longleftrightarrow>
     ext = ''jpg'' \<and> mime = ''image/jpeg'' \<or>
     ext = ''png'' \<and> mime = ''image/png'' \<or>
     ext = ''gif'' \<and> mime = ''image/gif''"

definition cacheKeyOf :: "int \<Rightarrow> string \<Rightarrow> string" where
  "cacheKeyOf pid ext = Itoa pid @ ''.'' @ ext"

definition etagOf :: "(byte list \<Rightarrow> string) \<Rightarrow> byte list \<Rightarrow> string" where
  "etagOf sha256hex imgdata = [CHR 0x22] @ sha256hex imgdata @ [CHR 0x22]"

definition serveImage :: "(byte list \<Rightarrow> string) \<Rightarrow> string \<Rightarrow> string \<Rightarrow> byte list \<Rightarrow> response" where
  "serveImage sha256hex ext ifNoneMatch imgdata =
     (let hs = [(''Content-Type'', getMimeType ext),
                (''Cache-Control'', ''public, max-age=31536000''),
                (''ETag'', etagOf sha256hex imgdata)]
      in if ifNoneMatch \<noteq> [] \<and> ifNoneMatch = etagOf sha256hex imgdata
         then \<lparr> rStatus = Some 304, rHeaders = hs, rBody = [] \<rparr>
         else \<lparr> rStatus = None, rHeaders = hs, rBody = imgdata \<rparr>)"

definition getImage ::
  "(byte list \<Rightarrow> string) \<Rightarrow> database \<Rightarrow> time \<Rightarrow> string \<Rightarrow> string \<Rightarrow> string \<Rightarrow> imageCache
     \<Rightarrow> response \<times> imageCache" where
  "getImage sha256hex db now pidStr ext ifNoneMatch c =
     (case Atoi pidStr of
        None \<Rightarrow> (statusOnly 404, c)
      | Some pid \<Rightarrow>
          (let cacheKey = cacheKeyOf pid ext;
               ((imgdata, found), c1) = getFromCache now cacheKey c
           in if \<not> found then
                (case dbGetPost db pid of
                   Inl err \<Rightarrow> (silent, c1)
                 | Inr post \<Rightarrow>
                     if extMatchesMime ext (pMime post) then
                       (serveImage sha256hex ext ifNoneMatch (pImgdata post),
                        addToCache now cacheKey (pImgdata post) c1)
                     else (statusOnly 404, c1))
              else (serveImage sha256hex ext ifNoneMatch imgdata, c1)))"

text \<open>The scenario of the specification: post 42 is stored as a PNG.\<close>

definition db42 :: database where
  "db42 = \<lparr> users = [\<lparr> uID = 1, uAccountName = ''mary'', uPasshash = ''x'', uAuthority = 0,
                          uDelFlg = 0, uCreatedAt = 1 \<rparr>],
              posts = [\<lparr> r_id = 42, r_user_id = 1, r_imgdata = [1, 2, 3], r_body = ''hello'',
                          r_mime = ''image/png'', r_created_at = 5 \<rparr>],
              comments = [], nextPostID = 43, alive = True, rowsDelivered = None \<rparr>"

text \<open>
  C8. When \<open>getImage\<close> misses the cache and the stored post's mime type does not match
  the requested extension, the answer is 404 and the cache is returned as it was: no
  entry added, no size changed, no instant refreshed.
\<close>

theorem getImage_mismatch_not_found:
  assumes "Atoi pidStr = Some pid"
      and "\<not> snd (fst (getFromCache now (cacheKeyOf pid ext) c))"
      and "dbGetPost db pid = Inr post"
      and "\<not> extMatchesMime ext (pMime post)"
  shows "getImage sha256hex db now pidStr ext ifNoneMatch c = (statusOnly 404, c)"
proof -
  have miss: "getFromCache now (cacheKeyOf pid ext) c = (([], False), c)"
    using assms(2) by (auto simp: getFromCache_def split: option.splits)
  show ?thesis
    using assms(1,3,4) by (simp add: getImage_def miss)
qed


text \<open>Witness: post 42 is a PNG and \<open>/image/42.jpg\<close> is requested on the empty cache.\<close>

theorem getImage_mismatch_not_found_witness:
  "Atoi ''42'' = Some 42
   \<and> \<not> snd (fst (getFromCache 7 (cacheKeyOf 42 ''jpg'') imageCache_init))
   \<and> dbGetPost db42 42 = Inr (scanPost (hd (posts db42)))
   \<and> \<not> extMatchesMime ''jpg'' (pMime (scanPost (hd (posts db42))))
   \<and> getImage (\<lambda>bs. ''00'') db42 7 ''42'' ''jpg'' [] imageCache_init
       = (statusOnly 404, imageCache_init)"
proof -
  have h1: "Atoi ''42'' = Some 42" by (simp add: decimal_eval)
  have h2: "\<not> snd (fst (getFromCache 7 (cacheKeyOf 42 ''jpg'') imageCache_init))"
    by (simp add: getFromCache_def imageCache_init_def)
  have h3: "dbGetPost db42 42 = Inr (scanPost (hd (posts db42)))"
    by (simp add: dbGetPost_def db42_def)
  have h4: "\<not> extMatchesMime ''jpg'' (pMime (scanPost (hd (posts db42))))"
    by (simp add: extMatchesMime_def scanPost_def db42_def)
  show ?thesis
    using getImage_mismatch_not_found [OF h1 h2 h3 h4, of "\<lambda>bs. ''00''" "[]"] h1 h2 h3 h4
    by simp
qed

section \<open>Uploading an image\<close>

text \<open>
  \<open>resizeImage\<close> calls \<open>image.Decode\<close>, \<open>resize.Resize\<close> with the Lanczos3 filter and
  the three encoders; these libraries are parameters of the model (\<open>codec\<close>), over any
  type of decoded images.
\<close>

definition MaxImageSize :: nat where
  "MaxImageSize = 800"

definition UploadLimit :: int where
  "UploadLimit = 10 * 1024 * 1024"

record 'img codec =
  imageDecode :: "byte list \<Rightarrow> error + 'img"
  resizeLanczos3 :: "nat \<Rightarrow> nat \<Rightarrow> 'img \<Rightarrow> 'img"
  jpegEncode :: "'img \<Rightarrow> nat \<Rightarrow> error + byte list"
  pngEncode :: "'img \<Rightarrow> error + byte list"
  gifEncode :: "'img \<Rightarrow> error + byte list"

definition resizeImage :: "'img codec \<Rightarrow> byte list \<Rightarrow> string \<Rightarrow> error + byte list" where
  "resizeImage codec imgData mime =
     (case imageDecode codec imgData of
        Inl err \<Rightarrow> Inl err
      | Inr img \<Rightarrow>
          (let resized = resizeLanczos3 codec MaxImageSize MaxImageSize img
           in if mime = ''image/jpeg'' then jpegEncode codec resized 85
              else if mime = ''image/png'' then pngEncode codec resized
              else if mime = ''image/gif'' then gifEncode codec resized
              else Inl (UnsupportedImageType mime)))"

text \<open>\<open>strings.Contains\<close>.\<close>

fun hasPrefix :: "string \<Rightarrow> string \<Rightarrow> bool" where
  "hasPrefix s [] = True"
| "hasPrefix [] (b # bs) = False"
| "hasPrefix (a # as) (b # bs) = (a = b \<and> hasPrefix as bs)"

fun Contains :: "string \<Rightarrow> string \<Rightarrow> bool" where
  "Contains [] substr = (substr = [])"
| "Contains (a # as) substr = (hasPrefix (a # as) substr \<or> Contains as substr)"

definition isLogin :: "User \<Rightarrow> bool" where
  "isLogin u \<longleftrightarrow> uID u \<noteq> 0"

text \<open>
  The request as \<open>postIndex\<close> sees it: the session user, the two CSRF tokens, the result
  of \<open>r.FormFile("file")\<close> (the part's \<open>Content-Type\<close> header values and what
  \<open>io.ReadAll\<close> returns) and the caption. The handler ends with a response, possibly a flash
  notice in the session, the store and the cache; indexing an absent \<open>Content-Type\<close> header
  panics. \<open>mimeOfContentType\<close> is the \<open>if\<close>/\<open>else if\<close> chain that sets \<open>mime\<close>.
\<close>

record upload =
  contentTypeHeader :: "string list"
  fileRead :: "error + byte list"

record uploadRequest =
  me :: User
  formCSRF :: string
  sessionCSRF :: string
  formFile :: "upload option"
  formBody :: string

datatype notice = ImageRequired | UnsupportedFormat | FileTooLarge

datatype handled =
    Panicked
  | Done response "notice option" database imageCache

definition mimeOfContentType :: "string \<Rightarrow> string option" where
  "mimeOfContentType contentType =
     (if Contains contentType ''jpeg'' then Some ''image/jpeg''
      else if Contains contentType ''png'' then Some ''image/png''
      else if Contains contentType ''gif'' then Some ''image/gif''
      else None)"

definition postIndex ::
  "'img codec \<Rightarrow> time \<Rightarrow> uploadRequest \<Rightarrow> database \<Rightarrow> imageCache \<Rightarrow> handled" where
  "postIndex codec now r db c =
     (if \<not> isLogin (me r) then Done (redirect ''/login'') None db c
      else if formCSRF r \<noteq> sessionCSRF r then Done (statusOnly 422) None db c
      else case formFile r of
        None \<Rightarrow> Done (redirect ''/'') (Some ImageRequired) db c
      | Some file \<Rightarrow>
          (case contentTypeHeader file of
             [] \<Rightarrow> Panicked
           | contentType # _ \<Rightarrow>
               (case mimeOfContentType contentType of
                  None \<Rightarrow> Done (redirect ''/'') (Some UnsupportedFormat) db c
                | Some mime \<Rightarrow>
                    (case fileRead file of
                       Inl err \<Rightarrow> Done silent None db c
                     | Inr filedata \<Rightarrow>
                         if int (length filedata) > UploadLimit
                         then Done (redirect ''/'') (Some FileTooLarge) db c
                         else
                           (let resizedData =
                                  (case resizeImage codec filedata mime of
                                     Inl err \<Rightarrow> filedata
                                   | Inr resized \<Rightarrow> resized)
                            in case insertPost db now (uID (me r)) mime resizedData (formBody r) of
                                 Inl err \<Rightarrow> Done silent None db c
                               | Inr (db', pid) \<Rightarrow>
                                   Done (redirect (''/posts/'' @ Itoa pid)) None db'
                                     (clearImageCache c))))))"

text \<open>A codec that fails to decode, a codec that hands the bytes back, and an upload.\<close>

definition failingCodec :: "unit codec" where
  "failingCodec = \<lparr> imageDecode = (\<lambda>bs. Inl DecodeError), resizeLanczos3 = (\<lambda>w h img. img),
                      jpegEncode = (\<lambda>img q. Inl EncodeError), pngEncode = (\<lambda>img. Inl EncodeError),
                      gifEncode = (\<lambda>img. Inl EncodeError) \<rparr>"

definition echoCodec :: "byte list codec" where
  "echoCodec = \<lparr> imageDecode = (\<lambda>bs. Inr bs), resizeLanczos3 = (\<lambda>w h img. img),
                   jpegEncode = (\<lambda>img q. Inr img), pngEncode = (\<lambda>img. Inr img),
                   gifEncode = (\<lambda>img. Inr img) \<rparr>"

definition pngUpload :: uploadRequest where
  "pngUpload = \<lparr> me = \<lparr> uID = 1, uAccountName = ''mary'', uPasshash = ''x'', uAuthority = 0,
                          uDelFlg = 0, uCreatedAt = 1 \<rparr>,
                   formCSRF = ''tok'', sessionCSRF = ''tok'',
                   formFile = Some \<lparr> contentTypeHeader = [''image/png''],
                                      fileRead = Inr [9, 9] \<rparr>,
                   formBody = ''caption'' \<rparr>"

text \<open>
  C9. For an upload that passes every check up to the size limit, when \<open>resizeImage\<close>
  returns an error the handler goes on to the insert with the original bytes under the
  declared mime type: it ends exactly as a run whose resize succeeded with these bytes,
  and when the store answers the new row holds the original bytes and the reply is the
  redirect to the new post.
\<close>

theorem postIndex_resize_failure_stores_original:
  assumes "isLogin (me r)" and "formCSRF r = sessionCSRF r"
      and "formFile r = Some file" and "contentTypeHeader file = contentType # rest"
      and "mimeOfContentType contentType = Some mime"
      and "fileRead file = Inr filedata" and "int (length filedata) \<le> UploadLimit"
      and "resizeImage codec filedata mime = Inl err"
  shows "postIndex codec now r db c =
           (case insertPost db now (uID (me r)) mime filedata (formBody r) of
              Inl e \<Rightarrow> Done silent None db c
            | Inr (db', pid) \<Rightarrow>
                Done (redirect (''/posts/'' @ Itoa pid)) None db' (clearImageCache c))
       \<and> (resizeImage codec' filedata mime = Inr filedata \<longrightarrow>
            postIndex codec' now r db c = postIndex codec now r db c)
       \<and> (alive db \<longrightarrow>
            postIndex codec now r db c =
              Done (redirect (''/posts/'' @ Itoa (nextPostID db))) None
                (db\<lparr> posts := posts db @
                        [\<lparr> r_id = nextPostID db, r_user_id = uID (me r), r_imgdata = filedata,
                           r_body = formBody r, r_mime = mime, r_created_at = now \<rparr>],
                     nextPostID := nextPostID db + 1 \<rparr>)
                (clearImageCache c))"
  using assms by (simp add: postIndex_def insertPost_def)

text \<open>Witness: a two-byte PNG upload that cannot be decoded is stored as post 43.\<close>

theorem postIndex_resize_failure_witness:
  "isLogin (me pngUpload) \<and> formCSRF pngUpload = sessionCSRF pngUpload
   \<and> formFile pngUpload = Some \<lparr> contentTypeHeader = [''image/png''], fileRead = Inr [9, 9] \<rparr>
   \<and> mimeOfContentType ''image/png'' = Some ''image/png''
   \<and> int (length [9, 9 :: byte]) \<le> UploadLimit
   \<and> resizeImage failingCodec [9, 9] ''image/png'' = Inl DecodeError
   \<and> resizeImage echoCodec [9, 9] ''image/png'' = Inr [9, 9]
   \<and> alive db42
   \<and> postIndex echoCodec 8 pngUpload db42 imageCache_init
       = postIndex failingCodec 8 pngUpload db42 imageCache_init
   \<and> postIndex failingCodec 8 pngUpload db42 imageCache_init =
       Done (redirect ''/posts/43'') None
         (db42\<lparr> posts := posts db42 @
                  [\<lparr> r_id = 43, r_user_id = 1, r_imgdata = [9, 9], r_body = ''caption'',
                     r_mime = ''image/png'', r_created_at = 8 \<rparr>],
                nextPostID := 44 \<rparr>)
         (clearImageCache imageCache_init)"
proof -
  have h1: "isLogin (me pngUpload)" by (simp add: isLogin_def pngUpload_def)
  have h2: "formCSRF pngUpload = sessionCSRF pngUpload" by (simp add: pngUpload_def)
  have h3: "formFile pngUpload
      = Some \<lparr> contentTypeHeader = [''image/png''], fileRead = Inr [9, 9] \<rparr>"
    by (simp add: pngUpload_def)
  have h4: "contentTypeHeader \<lparr> contentTypeHeader = [''image/png''], fileRead = Inr [9, 9 :: byte] \<rparr>
      = ''image/png'' # []" by simp
  have h5: "mimeOfContentType ''image/png'' = Some ''image/png''"
    by (simp add: mimeOfContentType_def)
  have h6: "fileRead \<lparr> contentTypeHeader = [''image/png''], fileRead = Inr [9, 9 :: byte] \<rparr>
      = Inr [9, 9]" by simp
  have h7: "int (length [9, 9 :: byte]) \<le> UploadLimit" by (simp add: UploadLimit_def)
  have h8: "resizeImage failingCodec [9, 9] ''image/png'' = Inl DecodeError"
    by (simp add: resizeImage_def failingCodec_def)
  have h9: "resizeImage echoCodec [9, 9] ''image/png'' = Inr [9, 9]"
    by (simp add: resizeImage_def echoCodec_def)
  have h10: "alive db42" by (simp add: db42_def)
  have n: "nextPostID db42 = 43" "uID (me pngUpload) = 1" "formBody pngUpload = ''caption''"
    by (simp_all add: db42_def pngUpload_def)
  have i: "Itoa 43 = ''43''" by (simp add: decimal_eval)
  note t = postIndex_resize_failure_stores_original [OF h1 h2 h3 h4 h5 h6 h7 h8,
        where codec' = echoCodec and now = 8 and db = db42 and c = imageCache_init]
  have c1: "postIndex echoCodec 8 pngUpload db42 imageCache_init
      = postIndex failingCodec 8 pngUpload db42 imageCache_init"
    using t h9 by blast
  have "postIndex failingCodec 8 pngUpload db42 imageCache_init =
       Done (redirect (''/posts/'' @ Itoa (nextPostID db42))) None
         (db42\<lparr> posts := posts db42 @
                  [\<lparr> r_id = nextPostID db42, r_user_id = uID (me pngUpload), r_imgdata = [9, 9],
                     r_body = formBody pngUpload, r_mime = ''image/png'', r_created_at = 8 \<rparr>],
                nextPostID := nextPostID db42 + 1 \<rparr>)
         (clearImageCache imageCache_init)"
    using t h10 by blast
  then have c2: "postIndex failingCodec 8 pngUpload db42 imageCache_init =
       Done (redirect ''/posts/43'') None
         (db42\<lparr> posts := posts db42 @
                  [\<lparr> r_id = 43, r_user_id = 1, r_imgdata = [9, 9], r_body = ''caption'',
                     r_mime = ''image/png'', r_created_at = 8 \<rparr>],
                nextPostID := 44 \<rparr>)
         (clearImageCache imageCache_init)"
    by (simp add: n i)
  show ?thesis
    using h1 h2 h3 h5 h7 h8 h9 h10 c1 c2 by blast
qed

section \<open>The size of the stored image\<close>

text \<open>
  What \<open>resizeImage\<close> returns depends on the image libraries, which are parameters here.
  Their behaviour enters as hypotheses, with \<open>dims\<close> the width and height of a decoded
  image (\<open>Bounds().Dx()\<close> and \<open>Bounds().Dy()\<close>): \<open>resize.Resize(width, height, img, interp)\<close>
  with both \<open>width\<close> and \<open>height\<close> non-zero returns an image of exactly that width and
  height, for an image that has pixels; and the bytes written by an encoder decode to an
  image of the dimensions that were encoded. The example codec keeps the dimensions of
  an image only, as four bytes, and resizes in this way.
\<close>

definition dimsOf :: "byte list \<Rightarrow> nat \<times> nat" where
  "dimsOf bs =
     (case bs of
        [a, b, c, d] \<Rightarrow> (256 * unat a + unat b, 256 * unat c + unat d)
      | _ \<Rightarrow> (0, 0))"

definition dimsBytes :: "nat \<Rightarrow> nat \<Rightarrow> byte list" where
  "dimsBytes w h = [of_nat (w div 256), of_nat (w mod 256), of_nat (h div 256), of_nat (h mod 256)]"

definition dimsCodec :: "byte list codec" where
  "dimsCodec = \<lparr> imageDecode = (\<lambda>bs. Inr bs), resizeLanczos3 = (\<lambda>w h img. dimsBytes w h),
                   jpegEncode = (\<lambda>img q. Inr img), pngEncode = (\<lambda>img. Inr img),
                   gifEncode = (\<lambda>img. Inr img) \<rparr>"

lemma resizeImage_Inr:
  assumes "resizeImage codec imgData mime = Inr out"
  shows "\<exists>img q. imageDecode codec imgData = Inr img
           \<and> (jpegEncode codec (resizeLanczos3 codec MaxImageSize MaxImageSize img) q = Inr out
              \<or> pngEncode codec (resizeLanczos3 codec MaxImageSize MaxImageSize img) = Inr out
              \<or> gifEncode codec (resizeLanczos3 codec MaxImageSize MaxImageSize img) = Inr out)"
  using assms by (auto simp: resizeImage_def Let_def split: sum.splits if_splits)

text \<open>
  C7 for every image. Whatever the width and height of the uploaded image, the bytes
  that \<open>resizeImage\<close> returns decode to an image of exactly \<open>MaxImageSize\<close> by
  \<open>MaxImageSize\<close> pixels, because it asks \<open>resize.Resize\<close> for that width and that height:
  both dimensions are within the maximum, and the aspect ratio of the input is kept for
  square images only.
\<close>

theorem resizeImage_output_square:
  fixes dims :: "'img \<Rightarrow> nat \<times> nat"
  assumes "\<forall>img. 0 < fst (dims img) \<and> 0 < snd (dims img) \<longrightarrow>
             dims (resizeLanczos3 codec MaxImageSize MaxImageSize img)
               = (MaxImageSize, MaxImageSize)"
      and "\<forall>img bytes q.
             jpegEncode codec img q = Inr bytes \<or> pngEncode codec img = Inr bytes
               \<or> gifEncode codec img = Inr bytes \<longrightarrow>
             (\<exists>img'. imageDecode codec bytes = Inr img' \<and> dims img' = dims img)"
      and "imageDecode codec imgData = Inr img"
      and "0 < fst (dims img) \<and> 0 < snd (dims img)"
      and "resizeImage codec imgData mime = Inr out"
  shows "\<exists>img'. imageDecode codec out = Inr img' \<and> dims img' = (MaxImageSize, MaxImageSize)"
proof -
  define resized where "resized = resizeLanczos3 codec MaxImageSize MaxImageSize img"
  obtain img0 q where "imageDecode codec imgData = Inr img0"
      and enc0: "jpegEncode codec (resizeLanczos3 codec MaxImageSize MaxImageSize img0) q = Inr out
              \<or> pngEncode codec (resizeLanczos3 codec MaxImageSize MaxImageSize img0) = Inr out
              \<or> gifEncode codec (resizeLanczos3 codec MaxImageSize MaxImageSize img0) = Inr out"
    using resizeImage_Inr [OF assms(5)] by blast
  then have "img0 = img" using assms(3) by simp
  then have enc: "jpegEncode codec resized q = Inr out \<or> pngEncode codec resized = Inr out
              \<or> gifEncode codec resized = Inr out"
    using enc0 by (simp add: resized_def)
  obtain img' where img': "imageDecode codec out = Inr img'" "dims img' = dims resized"
    using assms(2) enc by blast
  have "dims resized = (MaxImageSize, MaxImageSize)"
    using assms(1,4) by (simp add: resized_def)
  then show ?thesis using img' by simp
qed

text \<open>
  Witness, on the scenario of the specification: an upload of 5000 by 3000 pixels is
  stored as 800 by 800 pixels, which is not in the proportion 5 to 3.
\<close>

theorem resizeImage_output_square_witness:
  "imageDecode dimsCodec [19, 136, 11, 184] = Inr [19, 136, 11, 184]
   \<and> dimsOf [19, 136, 11, 184] = (5000, 3000)
   \<and> resizeImage dimsCodec [19, 136, 11, 184] ''image/jpeg'' = Inr [3, 32, 3, 32]
   \<and> imageDecode dimsCodec [3, 32, 3, 32] = Inr [3, 32, 3, 32]
   \<and> dimsOf [3, 32, 3, 32] = (800, 800)
   \<and> (5000 :: nat) * 800 \<noteq> 3000 * 800"
proof -
  have h1: "\<forall>img. 0 < fst (dimsOf img) \<and> 0 < snd (dimsOf img) \<longrightarrow>
             dimsOf (resizeLanczos3 dimsCodec MaxImageSize MaxImageSize img)
               = (MaxImageSize, MaxImageSize)"
    by (simp add: dimsCodec_def dimsBytes_def dimsOf_def MaxImageSize_def)
  have h2: "\<forall>img bytes q.
             jpegEncode dimsCodec img q = Inr bytes \<or> pngEncode dimsCodec img = Inr bytes
               \<or> gifEncode dimsCodec img = Inr bytes \<longrightarrow>
             (\<exists>img'. imageDecode dimsCodec bytes = Inr img' \<and> dimsOf img' = dimsOf img)"
    by (simp add: dimsCodec_def)
  have h3: "imageDecode dimsCodec [19, 136, 11, 184] = Inr [19, 136, 11, 184]"
    by (simp add: dimsCodec_def)
  have d: "dimsOf [19, 136, 11, 184] = (5000, 3000)"
    by (simp add: dimsOf_def)
  have h4: "0 < fst (dimsOf [19, 136, 11, 184]) \<and> 0 < snd (dimsOf [19, 136, 11, 184])"
    by (simp add: d)
  have h5: "resizeImage dimsCodec [19, 136, 11, 184] ''image/jpeg'' = Inr [3, 32, 3, 32]"
    by (simp add: resizeImage_def dimsCodec_def dimsBytes_def MaxImageSize_def)
  obtain img' where "imageDecode dimsCodec [3, 32, 3, 32] = Inr img'"
      "dimsOf img' = (MaxImageSize, MaxImageSize)"
    using resizeImage_output_square [OF h1 h2 h3 h4 h5] by blast
  then have "imageDecode dimsCodec [3, 32, 3, 32] = Inr [3, 32, 3, 32]"
      "dimsOf [3, 32, 3, 32] = (800, 800)"
    by (simp_all add: dimsCodec_def MaxImageSize_def)
  then show ?thesis using h3 d h5 by simp
qed

section \<open>Assembling the feed\<close>

text \<open>
  \<open>makePosts\<close> prepares two queries with \<open>sqlx.In\<close>, sends them and merges their rows.

  \<open>sqlx.In(query, args...)\<close> expands each \<open>?\<close> of the query that is bound to a slice. It
  fails on an empty slice, and, once a slice is among the arguments, when the \<open>?\<close> of the
  query outnumber the arguments or the arguments outnumber the \<open>?\<close>; otherwise it returns
  the flattened arguments. \<open>makePosts\<close> passes it the slice of post ids alone, so the
  arguments of the model are slices of ids. The texts of the two queries are those of the
  source with runs of white space condensed; \<open>sqlx.In\<close> looks at the \<open>?\<close> only.
\<close>

definition aggQueryText :: string where
  "aggQueryText =
     ''SELECT p.id as post_id, COUNT(c.id) as comment_count, u.id as user_id, '' @
     ''u.account_name, u.authority, u.del_flg, u.created_at as user_created_at '' @
     ''FROM posts p LEFT JOIN users u ON p.user_id = u.id '' @
     ''LEFT JOIN comments c ON p.id = c.post_id WHERE p.id IN (?) GROUP BY p.id, u.id''"

definition commentQueryText :: "bool \<Rightarrow> string" where
  "commentQueryText allComments =
     ''SELECT c.*, u.id as user_id, u.account_name, u.authority, u.del_flg, '' @
     ''u.created_at as user_created_at FROM comments c JOIN users u ON c.user_id = u.id '' @
     ''WHERE c.post_id IN (?)'' @
     (if \<not> allComments
      then '' AND c.id IN ( SELECT id FROM comments WHERE post_id = c.post_id '' @
           ''ORDER BY created_at DESC LIMIT 3 )''
      else []) @
     '' ORDER BY c.created_at DESC LIMIT ?''"

definition bindVars :: "string \<Rightarrow> nat" where
  "bindVars query = count_list query (CHR ''?'')"

definition sqlxIn :: "string \<Rightarrow> int list list \<Rightarrow> error + int list" where
  "sqlxIn query args =
     (if [] \<in> set args then Inl EmptySlice
      else if args = [] then Inr []
      else if length args < bindVars query then Inl BindVarsExceedArguments
      else if bindVars query < length args then Inl BindVarsLessThanArguments
      else Inr (concat args))"

text \<open>
  The queries are modelled on the tables by what their SQL text says, for tables whose
  \<open>id\<close> columns are primary keys. \<open>deliver\<close> is what the loop over \<open>rows.Next()\<close> gets to
  see of a result set; \<open>makePosts\<close> never calls \<open>rows.Err()\<close>.

  The first query, \<open>posts LEFT JOIN users LEFT JOIN comments ... WHERE p.id IN (?) GROUP BY
  p.id, u.id\<close>, gives one row for each stored post among the ids: the post id,
  \<open>COUNT(c.id)\<close> and the columns of the author, which are all \<open>NULL\<close> when the author row
  is missing (\<open>ar_user = None\<close>).
\<close>

definition deliver :: "database \<Rightarrow> 'a list \<Rightarrow> 'a list" where
  "deliver db rows = (case rowsDelivered db of None \<Rightarrow> rows | Some n \<Rightarrow> take n rows)"

record aggRow =
  ar_post_id :: int
  ar_comment_count :: int
  ar_user :: "User option"

definition aggQuery :: "database \<Rightarrow> int list \<Rightarrow> error + aggRow list" where
  "aggQuery db postIDs =
     (if \<not> alive db then Inl StorageError
      else Inr (deliver db
             (map (\<lambda>p. \<lparr> ar_post_id = r_id p,
                           ar_comment_count =
                             int (length (filter (\<lambda>c. cr_post_id c = r_id p) (comments db))),
                           ar_user = find (\<lambda>u. uID u = r_user_id p) (users db) \<rparr>)
                  (filter (\<lambda>p. r_id p \<in> set postIDs) (posts db)))))"

text \<open>
  The second query joins \<open>comments\<close> with \<open>users\<close>, keeps the comments of the given posts
  (and, unless \<open>allComments\<close>, those whose id is among
  \<open>SELECT id FROM comments WHERE post_id = c.post_id ORDER BY created_at DESC LIMIT 3\<close>),
  orders by \<open>created_at DESC\<close> and applies \<open>LIMIT ?\<close>. SQL leaves the order among equal
  \<open>created_at\<close> open; the model sorts stably, so ties keep the order of the table.
\<close>

definition recentComments :: "database \<Rightarrow> int \<Rightarrow> commentRow list" where
  "recentComments db postID =
     take 3 (sort_key (\<lambda>c. - cr_created_at c)
               (filter (\<lambda>c. cr_post_id c = postID) (comments db)))"

definition joinUsers :: "database \<Rightarrow> (commentRow \<times> User) list" where
  "joinUsers db =
     concat (map (\<lambda>c. map (Pair c) (filter (\<lambda>u. uID u = cr_user_id c) (users db)))
                 (comments db))"

definition commentQuery ::
  "database \<Rightarrow> int list \<Rightarrow> bool \<Rightarrow> int \<Rightarrow> error + (commentRow \<times> User) list" where
  "commentQuery db postIDs allComments maxComments =
     (if \<not> alive db then Inl StorageError
      else Inr (deliver db
             (take (nat maxComments)
                 (sort_key (\<lambda>(c, u). - cr_created_at c)
                    (filter (\<lambda>(c, u). cr_post_id c \<in> set postIDs \<and>
                                (allComments \<or>
                                 cr_id c \<in> set (map cr_id (recentComments db (cr_post_id c)))))
                            (joinUsers db))))))"

text \<open>
  \<open>rows.Scan\<close>: the author columns do not include \<open>passhash\<close>, which keeps its zero value.
  Scanning a \<open>NULL\<close> into an \<open>int\<close> fails, which is the \<open>None\<close> branch of \<open>scanAgg\<close>.
\<close>

definition scanUser :: "User \<Rightarrow> User" where
  "scanUser u = \<lparr> uID = uID u, uAccountName = uAccountName u, uPasshash = [],
                  uAuthority = uAuthority u, uDelFlg = uDelFlg u, uCreatedAt = uCreatedAt u \<rparr>"

definition scanComment :: "commentRow \<times> User \<Rightarrow> Comment" where
  "scanComment cu = \<lparr> cID = cr_id (fst cu), cPostID = cr_post_id (fst cu),
                      cUserID = cr_user_id (fst cu), cComment = cr_comment (fst cu),
                      cCreatedAt = cr_created_at (fst cu), cUser = scanUser (snd cu) \<rparr>"

text \<open>
  The four loops of \<open>makePosts\<close>. \<open>postMap\<close> maps an id to a
  pointer to a copy of the row, one copy per iteration (the loop variable semantics of
  Go 1.22, which the use of \<open>r.PathValue\<close> presupposes); the writes through the pointer
  are updates of the map. \<open>commentsMap[id]\<close> of an absent id is the empty slice.
\<close>

fun fillPostMap :: "Post list \<Rightarrow> (int \<rightharpoonup> Post) \<Rightarrow> (int \<rightharpoonup> Post)" where
  "fillPostMap [] postMap = postMap"
| "fillPostMap (p # ps) postMap = fillPostMap ps (postMap(pID p \<mapsto> p))"

fun scanAgg :: "aggRow list \<Rightarrow> (int \<rightharpoonup> Post) \<Rightarrow> error + (int \<rightharpoonup> Post)" where
  "scanAgg [] postMap = Inr postMap"
| "scanAgg (row # rows) postMap =
     (case ar_user row of
        None \<Rightarrow> Inl ScanError
      | Some u \<Rightarrow>
          scanAgg rows
            (case postMap (ar_post_id row) of
               Some post \<Rightarrow>
                 postMap(ar_post_id row \<mapsto>
                   post\<lparr> pCommentCount := ar_comment_count row, pUser := scanUser u \<rparr>)
             | None \<Rightarrow> postMap))"

fun scanComments ::
  "(commentRow \<times> User) list \<Rightarrow> (int \<Rightarrow> Comment list) \<Rightarrow> (int \<Rightarrow> Comment list)" where
  "scanComments [] commentsMap = commentsMap"
| "scanComments (row # rows) commentsMap =
     scanComments rows
       (commentsMap(cr_post_id (fst row) := commentsMap (cr_post_id (fst row)) @ [scanComment row]))"

fun assemble ::
  "Post list \<Rightarrow> (int \<rightharpoonup> Post) \<Rightarrow> (int \<Rightarrow> Comment list) \<Rightarrow> string \<Rightarrow> Post list" where
  "assemble [] postMap commentsMap csrfToken = []"
| "assemble (p # ps) postMap commentsMap csrfToken =
     (case postMap (pID p) of
        Some post \<Rightarrow>
          (let post' = post\<lparr> pComments := commentsMap (pID p), pCSRFToken := csrfToken \<rparr>
           in if uDelFlg (pUser post') = 0
              then post' # assemble ps postMap commentsMap csrfToken
              else assemble ps postMap commentsMap csrfToken)
      | None \<Rightarrow> assemble ps postMap commentsMap csrfToken)"

text \<open>
  \<open>makePosts\<close>, statement by statement: the early return on no rows, \<open>sqlx.In\<close> on the
  first query, \<open>postMap\<close>, the first query and its scan, then the comment query, which
  already ends in \<open>LIMIT ?\<close> when \<open>sqlx.In\<close> is given the ids alone (\<open>maxComments\<close> is
  appended to \<open>args\<close> only afterwards), the second query and its scan, and the final loop.
\<close>

definition makePosts :: "database \<Rightarrow> Post list \<Rightarrow> string \<Rightarrow> bool \<Rightarrow> error + Post list" where
  "makePosts db results csrfToken allComments =
     (if results = [] then Inr []
      else
        (let postIDs = map pID results
         in case sqlxIn aggQueryText [postIDs] of
              Inl err \<Rightarrow> Inl err
            | Inr args \<Rightarrow>
                (let postMap0 = fillPostMap results Map.empty
                 in case aggQuery db args of
                      Inl err \<Rightarrow> Inl err
                    | Inr rows \<Rightarrow>
                        (case scanAgg rows postMap0 of
                           Inl err \<Rightarrow> Inl err
                         | Inr postMap \<Rightarrow>
                             (case sqlxIn (commentQueryText allComments) [postIDs] of
                                Inl err \<Rightarrow> Inl err
                              | Inr cargs \<Rightarrow>
                                  (case commentQuery db cargs allComments
                                          (int (length postIDs) * 3) of
                                     Inl err \<Rightarrow> Inl err
                                   | Inr crows \<Rightarrow>
                                       Inr (assemble results postMap
                                              (scanComments crows (\<lambda>i. [])) csrfToken)))))))"

text \<open>
  Every stored post has its author row. The author that the first query resolves for an
  input row: the author row of the stored post with that id, scanned; an input row with
  no stored post keeps its own \<open>User\<close> field; \<open>None\<close> when the author row is missing.
  \<open>authorVisible\<close> says that this author exists with the deletion flag unset.
\<close>

definition authorsPresent :: "database \<Rightarrow> bool" where
  "authorsPresent db \<longleftrightarrow>
     (\<forall>r \<in> set (posts db). \<exists>u \<in> set (users db). uID u = r_user_id r)"

definition resolvedAuthor :: "database \<Rightarrow> Post \<Rightarrow> User option" where
  "resolvedAuthor db p =
     (case find (\<lambda>r. r_id r = pID p) (posts db) of
        None \<Rightarrow> Some (pUser p)
      | Some r \<Rightarrow> map_option scanUser (find (\<lambda>u. uID u = r_user_id r) (users db)))"

definition authorVisible :: "database \<Rightarrow> Post \<Rightarrow> bool" where
  "authorVisible db p \<longleftrightarrow>
     (case resolvedAuthor db p of None \<Rightarrow> False | Some u \<Rightarrow> uDelFlg u = 0)"

text \<open>
  A small store. User 2 is banned. The table of posts holds post 3, post 1 and post 2 in
  this order, written by users 3, 1 and 2. Post 1 has four comments, the second of them
  by the banned user 2; post 3 has one. \<open>feedRows\<close> is the input in the order 1, 2, 3.
\<close>

definition mkUser :: "int \<Rightarrow> int \<Rightarrow> User" where
  "mkUser i del = \<lparr> uID = i, uAccountName = ''u'', uPasshash = ''h'', uAuthority = 0,
                    uDelFlg = del, uCreatedAt = 1 \<rparr>"

definition mkPostRow :: "int \<Rightarrow> int \<Rightarrow> postRow" where
  "mkPostRow i uid = \<lparr> r_id = i, r_user_id = uid, r_imgdata = [], r_body = ''b'',
                       r_mime = ''image/png'', r_created_at = 2 \<rparr>"

definition mkCommentRow :: "int \<Rightarrow> int \<Rightarrow> int \<Rightarrow> time \<Rightarrow> commentRow" where
  "mkCommentRow i pid uid t = \<lparr> cr_id = i, cr_post_id = pid, cr_user_id = uid,
                                cr_comment = ''c'', cr_created_at = t \<rparr>"

definition dbFeed :: database where
  "dbFeed = \<lparr> users = [mkUser 1 0, mkUser 2 1, mkUser 3 0],
                posts = [mkPostRow 3 3, mkPostRow 1 1, mkPostRow 2 2],
                comments = [mkCommentRow 1 1 1 10, mkCommentRow 2 1 2 11,
                            mkCommentRow 3 1 1 12, mkCommentRow 4 1 3 13,
                            mkCommentRow 5 3 1 14],
                nextPostID = 4, alive = True, rowsDelivered = None \<rparr>"

definition feedRows :: "Post list" where
  "feedRows = [scanPost (mkPostRow 1 1), scanPost (mkPostRow 2 2), scanPost (mkPostRow 3 3)]"

subsection \<open>Preparing the queries\<close>

lemma bindVars_aggQueryText: "bindVars aggQueryText = 1"
  by (simp add: bindVars_def aggQueryText_def)

lemma bindVars_commentQueryText: "bindVars (commentQueryText allComments) = 2"
  by (simp add: bindVars_def commentQueryText_def)

lemma sqlxIn_aggQueryText: "ids \<noteq> [] \<Longrightarrow> sqlxIn aggQueryText [ids] = Inr ids"
  by (simp add: sqlxIn_def bindVars_aggQueryText)

lemma sqlxIn_commentQueryText:
  "ids \<noteq> [] \<Longrightarrow> sqlxIn (commentQueryText allComments) [ids] = Inl BindVarsExceedArguments"
  by (simp add: sqlxIn_def bindVars_commentQueryText)

subsection \<open>What \<open>makePosts\<close> returns\<close>



lemma scanAgg_succeeds:
  "\<forall>row \<in> set rows. ar_user row \<noteq> None \<Longrightarrow> \<exists>m'. scanAgg rows m = Inr m'"
  by (induction rows arbitrary: m) (auto split: option.splits)

lemma set_deliver: "set (deliver db rows) \<subseteq> set rows"
  by (auto simp: deliver_def split: option.splits dest: in_set_takeD)

lemma aggQuery_alive:
  assumes "alive db" and "authorsPresent db"
  shows "\<exists>rows. aggQuery db ids = Inr rows \<and> (\<forall>row \<in> set rows. ar_user row \<noteq> None)"
proof -
  have "find (\<lambda>u. uID u = r_user_id r) (users db) \<noteq> None" if "r \<in> set (posts db)" for r
    using assms(2) that unfolding authorsPresent_def find_None_iff by blast
  then show ?thesis
    using assms(1) set_deliver [of db] by (fastforce simp: aggQuery_def)
qed

lemma makePosts_bindVars_error:
  assumes "results \<noteq> []" and "alive db" and "authorsPresent db"
  shows "makePosts db results tok allC = Inl BindVarsExceedArguments"
proof -
  have ids: "map pID results \<noteq> []" using assms(1) by simp
  obtain rows where rows: "aggQuery db (map pID results) = Inr rows"
      "\<forall>row \<in> set rows. ar_user row \<noteq> None"
    using aggQuery_alive [OF assms(2,3)] by blast
  obtain pm where pm: "scanAgg rows (fillPostMap results Map.empty) = Inr pm"
    using scanAgg_succeeds [OF rows(2)] by blast
  show ?thesis
    using assms(1)
    by (simp add: makePosts_def Let_def sqlxIn_aggQueryText [OF ids] rows(1) pm
        sqlxIn_commentQueryText [OF ids])
qed

subsection \<open>The final loop\<close>

text \<open>
  The loop over \<open>results\<close> that ends \<open>makePosts\<close>, taken by itself: it keeps the order of
  the input, drops the posts whose author in \<open>postMap\<close> has the deletion flag set, and
  attaches the comment list of the post as it is.
\<close>

lemma assemble_ids:
  assumes "\<forall>p \<in> set ps. \<exists>post. pm (pID p) = Some post \<and> pID post = pID p
                              \<and> (uDelFlg (pUser post) = 0 \<longleftrightarrow> V p)"
  shows "map pID (assemble ps pm cm tok) = map pID (filter V ps)"
  using assms by (induction ps) (auto simp: Let_def)

lemma assemble_entries:
  "e \<in> set (assemble ps pm cm tok) \<Longrightarrow>
   \<exists>p \<in> set ps. \<exists>post. pm (pID p) = Some post \<and> uDelFlg (pUser post) = 0
        \<and> e = post\<lparr> pComments := cm (pID p), pCSRFToken := tok \<rparr>"
  by (induction ps) (auto simp: Let_def split: option.splits if_splits)

subsection \<open>The example store, computed\<close>

lemmas feed_eval = dbFeed_def feedRows_def mkUser_def mkPostRow_def mkCommentRow_def
  scanPost_def zeroUser_def

lemma dbFeed_answers: "alive dbFeed \<and> authorsPresent dbFeed"
  by (simp add: authorsPresent_def feed_eval)

subsection \<open>The claims on the feed\<close>



text \<open>
  C2 at a failing input. For the rows 1, 2, 3 on the example store, where the authors of
  posts 1 and 3 are not banned, \<open>makePosts\<close> returns the error of \<open>sqlx.In\<close> on the comment
  query instead of entries with the ids 1 and 3.
\<close>

theorem makePosts_feed_fails:
  "makePosts dbFeed feedRows ''tok'' False = Inl BindVarsExceedArguments
   \<and> map pID feedRows = [1, 2, 3]
   \<and> map pID (filter (authorVisible dbFeed) feedRows) = [1, 3]"
proof -
  have "feedRows \<noteq> []" by (simp add: feedRows_def)
  then have "makePosts dbFeed feedRows ''tok'' False = Inl BindVarsExceedArguments"
    using dbFeed_answers by (simp add: makePosts_bindVars_error)
  moreover have "map pID feedRows = [1, 2, 3]"
    by (simp add: feed_eval)
  moreover have "map pID (filter (authorVisible dbFeed) feedRows) = [1, 3]"
    by (simp add: authorVisible_def resolvedAuthor_def scanUser_def feed_eval)
  ultimately show ?thesis by simp
qed

text \<open>
  C3 at a failing input. Post 1 has four comments; \<open>makePosts\<close> with \<open>allComments = true\<close>
  for the single row of post 1, the call of the detail page, returns the error of
  \<open>sqlx.In\<close> on the comment query: no entry and none of the four comments.
\<close>

theorem makePosts_detail_fails:
  "makePosts dbFeed [scanPost (mkPostRow 1 1)] ''tok'' True = Inl BindVarsExceedArguments
   \<and> length (filter (\<lambda>c. cr_post_id c = 1) (comments dbFeed)) = 4"
proof -
  have "makePosts dbFeed [scanPost (mkPostRow 1 1)] ''tok'' True = Inl BindVarsExceedArguments"
    using dbFeed_answers by (simp add: makePosts_bindVars_error)
  moreover have "length (filter (\<lambda>c. cr_post_id c = 1) (comments dbFeed)) = 4"
    by (simp add: feed_eval)
  ultimately show ?thesis by simp
qed

text \<open>
  C6 at a failing input. The three most recent comments of post 1 are the comments 4, 3
  and 2; \<open>makePosts\<close> with \<open>allComments = false\<close> for the single row of post 1 returns the
  error of \<open>sqlx.In\<close> on the comment query: no entry and none of these comments.
\<close>

theorem makePosts_recent_fails:
  "makePosts dbFeed [scanPost (mkPostRow 1 1)] ''tok'' False = Inl BindVarsExceedArguments
   \<and> map cr_id (recentComments dbFeed 1) = [4, 3, 2]"
proof -
  have "makePosts dbFeed [scanPost (mkPostRow 1 1)] ''tok'' False = Inl BindVarsExceedArguments"
    using dbFeed_answers by (simp add: makePosts_bindVars_error)
  moreover have "map cr_id (recentComments dbFeed 1) = [4, 3, 2]"
    by (simp add: recentComments_def feed_eval)
  ultimately show ?thesis by simp
qed

end
